theory Spec2Isabelle
  imports Complex_Main
begin

section \<open>Numbers, errors and the infeasible sentinel\<close>

text \<open>
  The program computes with Python numbers. They are embedded as exact reals: the
  statements below are about the arithmetic the source writes down, not about the
  rounding of a binary floating-point unit, except in the one section that says so. The only non-real value the program manufactures
  itself is \<open>np.nan\<close>, the infeasible sentinel; values that may hold it have type
  \<open>pyfloat\<close>, and the comparisons on that type follow the IEEE rules Python uses
  (\<open>NaN\<close> is unequal to everything, and never greater than anything).
\<close>

datatype error = ZeroDivisionError | IndexError | UnboundLocalError

datatype pyfloat = Num real | NaN

text \<open>Python's \<open>a / b\<close> on floats raises when the divisor is zero.\<close>

definition truediv :: "real \<Rightarrow> real \<Rightarrow> error + real" where
  "truediv a b = (if b = 0 then Inl ZeroDivisionError else Inr (a / b))"

text \<open>\<open>x != y\<close> and \<open>x > y\<close> on values that may be the sentinel.\<close>

fun ne_f :: "pyfloat \<Rightarrow> pyfloat \<Rightarrow> bool" where
  "ne_f (Num a) (Num b) = (a \<noteq> b)"
| "ne_f _ _ = True"

fun gt_f :: "pyfloat \<Rightarrow> pyfloat \<Rightarrow> bool" where
  "gt_f (Num a) (Num b) = (a > b)"
| "gt_f _ _ = False"

text \<open>The builtin \<open>max(a, b)\<close> keeps \<open>a\<close> unless \<open>b > a\<close>.\<close>

definition max_f :: "pyfloat \<Rightarrow> pyfloat \<Rightarrow> pyfloat" where
  "max_f a b = (if gt_f b a then b else a)"

section \<open>Battery: the lossless model\<close>

record Battery =
  capacity :: real
  current_load :: real

text \<open>
  \<open>charge\<close> and \<open>discharge\<close> mutate the object and return a number; the model returns
  the number together with the updated battery.
\<close>

definition Battery_charge :: "real \<Rightarrow> Battery \<Rightarrow> real \<times> Battery" where
  "Battery_charge input_load b =
     (let b1 = b\<lparr>current_load := current_load b + input_load\<rparr>;
          b2 = (if current_load b1 > capacity b1 then b1\<lparr>current_load := capacity b1\<rparr> else b1)
      in (current_load b2, b2))"

definition Battery_discharge :: "real \<Rightarrow> Battery \<Rightarrow> real \<times> Battery" where
  "Battery_discharge output_load b =
     (let b1 = b\<lparr>current_load := current_load b - output_load\<rparr>
      in if current_load b1 < 0
         then (let lacking_amount = current_load b1
               in (output_load + lacking_amount, b1\<lparr>current_load := 0\<rparr>))
         else (output_load, b1))"

definition Battery_is_full :: "Battery \<Rightarrow> bool" where
  "Battery_is_full b = (capacity b = current_load b)"

definition Battery_find_and_init_capacity :: "real \<Rightarrow> Battery \<Rightarrow> Battery" where
  "Battery_find_and_init_capacity input_load b = b\<lparr>capacity := capacity b + input_load\<rparr>"

text \<open>The range invariant of the data model: \<open>0 \<le> current_load \<le> capacity\<close>.\<close>

definition load_in_range :: "'a Battery_scheme \<Rightarrow> bool" where
  "load_in_range b = (0 \<le> current_load b \<and> current_load b \<le> capacity b)"

section \<open>Battery2: the lossy, rate-limited model\<close>

text \<open>
  \<open>Battery2\<close> has the two fields of \<open>Battery\<close> and six coefficients, so it is the
  record extended; \<open>capacity\<close> and \<open>current_load\<close> read either kind of battery.
\<close>

record Battery2 = Battery +
  eff_c :: real
  eff_d :: real
  upper_lim_u :: real
  upper_lim_v :: real
  lower_lim_u :: real
  lower_lim_v :: real

text \<open>The constructors, with the keyword defaults of \<open>Battery2.__init__\<close>.\<close>

definition Battery_init :: "real \<Rightarrow> real \<Rightarrow> Battery" where
  "Battery_init cap load = \<lparr>capacity = cap, current_load = load\<rparr>"

definition Battery2_init :: "real \<Rightarrow> real \<Rightarrow> Battery2" where
  "Battery2_init cap load =
     \<lparr>capacity = cap, current_load = load,
      eff_c = 0.98, eff_d = 1.05,
      upper_lim_u = - 0.125, upper_lim_v = 1,
      lower_lim_u = 0.05, lower_lim_v = 0\<rparr>"

text \<open>A battery that carries the default (lithium NMC) coefficients.\<close>

definition default_coefficients :: "Battery2 \<Rightarrow> bool" where
  "default_coefficients b =
     (eff_c b = 0.98 \<and> eff_d b = 1.05 \<and> upper_lim_u b = - 0.125 \<and> upper_lim_v b = 1
      \<and> lower_lim_u b = 0.05 \<and> lower_lim_v b = 0)"

definition calc_max_charge :: "Battery2 \<Rightarrow> error + real" where
  "calc_max_charge b =
     (case truediv (capacity b) (eff_c b) of
        Inl e \<Rightarrow> Inl e
      | Inr by_capacity \<Rightarrow>
          (case truediv (upper_lim_v b * capacity b - current_load b) (eff_c b - upper_lim_u b) of
             Inl e \<Rightarrow> Inl e
           | Inr by_rate \<Rightarrow> Inr (min by_capacity by_rate)))"

definition calc_max_discharge :: "Battery2 \<Rightarrow> error + real" where
  "calc_max_discharge b =
     (case truediv (capacity b) (eff_d b) of
        Inl e \<Rightarrow> Inl e
      | Inr by_capacity \<Rightarrow>
          (case truediv (current_load b - lower_lim_v b * capacity b) (lower_lim_u b + eff_d b) of
             Inl e \<Rightarrow> Inl e
           | Inr by_rate \<Rightarrow> Inr (min by_capacity by_rate)))"

definition Battery2_charge :: "real \<Rightarrow> Battery2 \<Rightarrow> error + real \<times> Battery2" where
  "Battery2_charge input_load b =
     (case calc_max_charge b of
        Inl e \<Rightarrow> Inl e
      | Inr max_charge \<Rightarrow>
          (let b' = b\<lparr>current_load := current_load b + min max_charge input_load * eff_c b\<rparr>
           in Inr (current_load b', b')))"

definition Battery2_discharge :: "real \<Rightarrow> Battery2 \<Rightarrow> error + real \<times> Battery2" where
  "Battery2_discharge output_load b =
     (case calc_max_discharge b of
        Inl e \<Rightarrow> Inl e
      | Inr max_discharge \<Rightarrow>
          (let b' = b\<lparr>current_load := current_load b - min max_discharge output_load * eff_d b\<rparr>
           in if max_discharge < output_load then Inr (max_discharge, b') else Inr (output_load, b')))"

definition Battery2_is_full :: "Battery2 \<Rightarrow> bool" where
  "Battery2_is_full b = (capacity b = current_load b)"

text \<open>
  \<open>find_and_init_capacity\<close> runs a \<open>while True\<close> loop that leaves only through its
  \<open>break\<close>. The loop is a partial function into \<open>option\<close>: \<open>None\<close> is the run that
  never leaves. Its arguments are the loop's variables: \<open>input_load\<close>, the local
  \<open>new_capacity\<close> and the battery.
\<close>

partial_function (option) find_capacity_loop ::
  "real \<Rightarrow> real \<Rightarrow> Battery2 \<Rightarrow> (error + Battery2) option" where
  "find_capacity_loop input_load new_capacity b =
     (case truediv (new_capacity - lower_lim_v b * capacity b) (lower_lim_u b + eff_d b) of
        Inl e \<Rightarrow> Some (Inl e)
      | Inr power_lim \<Rightarrow>
          if power_lim < input_load
          then find_capacity_loop input_load (new_capacity + 0.1) (b\<lparr>capacity := capacity b + 0.1\<rparr>)
          else Some (Inr b))"

definition Battery2_find_and_init_capacity :: "real \<Rightarrow> Battery2 \<Rightarrow> (error + Battery2) option" where
  "Battery2_find_and_init_capacity input_load b =
     find_capacity_loop input_load (input_load * eff_d b)
       (b\<lparr>capacity := capacity b + input_load * eff_d b\<rparr>)"

section \<open>The feasibility simulator\<close>

text \<open>
  \<open>sim_battery_247\<close> takes any object with \<open>charge\<close> and \<open>discharge\<close>; the two classes
  of the program are the two cases of a tagged union, and the method call dispatches on
  the tag.
\<close>

datatype battery = Lossless Battery | Lossy Battery2

fun charge :: "real \<Rightarrow> battery \<Rightarrow> error + real \<times> battery" where
  "charge x (Lossless b) = (case Battery_charge x b of (r, b') \<Rightarrow> Inr (r, Lossless b'))"
| "charge x (Lossy b) =
     (case Battery2_charge x b of Inl e \<Rightarrow> Inl e | Inr (r, b') \<Rightarrow> Inr (r, Lossy b'))"

fun discharge :: "real \<Rightarrow> battery \<Rightarrow> error + real \<times> battery" where
  "discharge x (Lossless b) = (case Battery_discharge x b of (r, b') \<Rightarrow> Inr (r, Lossless b'))"
| "discharge x (Lossy b) =
     (case Battery2_discharge x b of Inl e \<Rightarrow> Inl e | Inr (r, b') \<Rightarrow> Inr (r, Lossy b'))"

text \<open>
  The series are lists; the loop runs over the indices of \<open>df_dc_pow\<close> and reads
  \<open>df_ren[i]\<close> first, which raises when \<open>df_ren\<close> is the shorter one. The battery the
  caller passed is not looked at again after the call, so only the verdict is returned.
\<close>

fun sim_battery_247 :: "real list \<Rightarrow> real list \<Rightarrow> battery \<Rightarrow> error + bool" where
  "sim_battery_247 df_ren [] b = Inr True"
| "sim_battery_247 [] (df_dc # dcs) b = Inl IndexError"
| "sim_battery_247 (ren_mw # rens) (df_dc # dcs) b =
     (let net_load = ren_mw - df_dc
      in if net_load > 0
         then (case charge net_load b of
                 Inl e \<Rightarrow> Inl e
               | Inr (_, b') \<Rightarrow> sim_battery_247 rens dcs b')
         else (case discharge (- net_load) b of
                 Inl e \<Rightarrow> Inl e
               | Inr (actual_discharge, b') \<Rightarrow>
                   if actual_discharge < - net_load then Inr False
                   else sim_battery_247 rens dcs b'))"

section \<open>The binary-search capacity sizer\<close>

text \<open>
  \<open>calculate_247_battery_capacity_b1_sim\<close> and \<open>calculate_247_battery_capacity_b2_sim\<close>
  are the same text but for the class they instantiate, so the loop is written once,
  with the constructor call \<open>new_b med med\<close> as a parameter. The loop's variables are
  \<open>l\<close>, \<open>u\<close> and \<open>med\<close>; \<open>med\<close> is unbound until the first iteration assigns it.
\<close>

lemma search_interval_halves:
  fixes l u :: real
  assumes gap: "1 / 10 < u - l"
  shows "nat \<lceil>((u + l) / 2 - l) * 10\<rceil> < nat \<lceil>(u - l) * 10\<rceil>"
    and "nat \<lceil>(u - (u + l) / 2) * 10\<rceil> < nat \<lceil>(u - l) * 10\<rceil>"
proof -
  define d where "d = (u - l) * 10"
  have d: "1 < d" using gap by (simp add: d_def)
  have up: "real_of_int \<lceil>d / 2\<rceil> < d / 2 + 1" by linarith
  have lo: "d \<le> real_of_int \<lceil>d\<rceil>" by linarith
  have one: "1 < \<lceil>d\<rceil>" using d by linarith
  have "\<lceil>d / 2\<rceil> < \<lceil>d\<rceil>"
  proof (cases "d \<le> 2")
    case True
    then have "\<lceil>d / 2\<rceil> \<le> 1" by (simp add: ceiling_le_iff)
    with one show ?thesis by linarith
  next
    case False
    then have "d / 2 + 1 < d" by simp
    with up lo have "real_of_int \<lceil>d / 2\<rceil> < real_of_int \<lceil>d\<rceil>" by linarith
    then show ?thesis by simp
  qed
  with one have less: "nat \<lceil>d / 2\<rceil> < nat \<lceil>d\<rceil>" by linarith
  have e1: "((u + l) / 2 - l) * 10 = d / 2" and e2: "(u - (u + l) / 2) * 10 = d / 2"
    and e3: "(u - l) * 10 = d"
    by (simp_all add: d_def field_simps)
  show "nat \<lceil>((u + l) / 2 - l) * 10\<rceil> < nat \<lceil>(u - l) * 10\<rceil>"
    unfolding e1 e3 by (rule less)
  show "nat \<lceil>(u - (u + l) / 2) * 10\<rceil> < nat \<lceil>(u - l) * 10\<rceil>"
    unfolding e2 e3 by (rule less)
qed

function search_loop ::
  "(real \<Rightarrow> real \<Rightarrow> battery) \<Rightarrow> real list \<Rightarrow> real list \<Rightarrow> real \<Rightarrow> real \<Rightarrow> real option
     \<Rightarrow> error + real \<times> real \<times> real option" where
  "search_loop new_b df_ren df_dc_pow l u med =
     (if u - l > 0.1
      then (case sim_battery_247 df_ren df_dc_pow (new_b ((u + l) / 2) ((u + l) / 2)) of
              Inl e \<Rightarrow> Inl e
            | Inr ok \<Rightarrow>
                if ok then search_loop new_b df_ren df_dc_pow l ((u + l) / 2) (Some ((u + l) / 2))
                else search_loop new_b df_ren df_dc_pow ((u + l) / 2) u (Some ((u + l) / 2)))
      else Inr (l, u, med))"
  by pat_completeness auto
termination
proof (relation "measure (\<lambda>(new_b, df_ren, df_dc_pow, l, u, med). nat \<lceil>(u - l) * 10\<rceil>)", goal_cases)
  case 1
  show ?case by simp
next
  case (2 new_b df_ren df_dc_pow l u med ok)
  from search_interval_halves(1) [OF 2(1)] show ?case by simp
next
  case (3 new_b df_ren df_dc_pow l u med ok)
  from search_interval_halves(2) [OF 3(1)] show ?case by simp
qed

definition capacity_sizer ::
  "(real \<Rightarrow> real \<Rightarrow> battery) \<Rightarrow> real list \<Rightarrow> real list \<Rightarrow> real \<Rightarrow> error + pyfloat" where
  "capacity_sizer new_b df_ren df_dc_pow max_bsize =
     (case sim_battery_247 df_ren df_dc_pow (new_b 0 0) of
        Inl e \<Rightarrow> Inl e
      | Inr ok \<Rightarrow>
          if ok then Inr (Num 0)
          else (case search_loop new_b df_ren df_dc_pow 0 max_bsize None of
                  Inl e \<Rightarrow> Inl e
                | Inr (l, u, med) \<Rightarrow>
                    if u = max_bsize then Inr NaN
                    else (case med of None \<Rightarrow> Inl UnboundLocalError | Some m \<Rightarrow> Inr (Num m))))"

definition new_Battery :: "real \<Rightarrow> real \<Rightarrow> battery" where
  "new_Battery cap load = Lossless (Battery_init cap load)"

definition new_Battery2 :: "real \<Rightarrow> real \<Rightarrow> battery" where
  "new_Battery2 cap load = Lossy (Battery2_init cap load)"

definition calculate_247_battery_capacity_b2_sim ::
  "real list \<Rightarrow> real list \<Rightarrow> real \<Rightarrow> error + pyfloat" where
  "calculate_247_battery_capacity_b2_sim = capacity_sizer new_Battery2"

definition calculate_247_battery_capacity_b1_sim ::
  "real list \<Rightarrow> real list \<Rightarrow> real \<Rightarrow> error + pyfloat" where
  "calculate_247_battery_capacity_b1_sim = capacity_sizer new_Battery"

text \<open>
  The capacities a search tries, in order: the same recursion as \<open>search_loop\<close>,
  keeping every midpoint instead of the last one. It is not part of the program; the
  statements about "every candidate tested" are written with it.
\<close>

function tested_capacities ::
  "(real \<Rightarrow> real \<Rightarrow> battery) \<Rightarrow> real list \<Rightarrow> real list \<Rightarrow> real \<Rightarrow> real \<Rightarrow> real list" where
  "tested_capacities new_b df_ren df_dc_pow l u =
     (if u - l > 0.1
      then (u + l) / 2 #
           (case sim_battery_247 df_ren df_dc_pow (new_b ((u + l) / 2) ((u + l) / 2)) of
              Inl e \<Rightarrow> []
            | Inr ok \<Rightarrow>
                if ok then tested_capacities new_b df_ren df_dc_pow l ((u + l) / 2)
                else tested_capacities new_b df_ren df_dc_pow ((u + l) / 2) u)
      else [])"
  by pat_completeness auto
termination
proof (relation "measure (\<lambda>(new_b, df_ren, df_dc_pow, l, u). nat \<lceil>(u - l) * 10\<rceil>)", goal_cases)
  case 1
  show ?case by simp
next
  case (2 new_b df_ren df_dc_pow l u ok)
  from search_interval_halves(1) [OF 2(1)] show ?case by simp
next
  case (3 new_b df_ren df_dc_pow l u ok)
  from search_interval_halves(2) [OF 3(1)] show ?case by simp
qed

section \<open>The incremental capacity finder\<close>

text \<open>
  The loop of \<open>calculate_247_battery_capacity\<close> has three variables besides the index:
  \<open>battery_cap\<close> (which may become the sentinel), \<open>daily_net_load\<close> and the battery
  \<open>b\<close> (field \<open>bat\<close>). One iteration either falls through to the next index or leaves
  by \<open>break\<close>.
\<close>

record finder_state =
  battery_cap :: pyfloat
  daily_net_load :: real
  bat :: Battery

datatype 'a control = Continue 'a | Break 'a

text \<open>Lines 218 to 234: what one step does to the battery.\<close>

definition finder_battery_step :: "real \<Rightarrow> real \<Rightarrow> Battery \<Rightarrow> Battery" where
  "finder_battery_step ren_mw df_dc b =
     (if df_dc > ren_mw
      then (if capacity b = 0 then Battery_find_and_init_capacity (df_dc - ren_mw) b
            else (let load_before = current_load b
                  in if load_before = 0 then Battery_find_and_init_capacity (df_dc - ren_mw) b
                     else (let b' = snd (Battery_discharge (df_dc - ren_mw) b);
                               load_after = current_load b'
                           in if load_after = 0
                              then Battery_find_and_init_capacity ((df_dc - ren_mw) - load_before) b'
                              else b')))
      else (if capacity b > 0 then snd (Battery_charge (ren_mw - df_dc) b)
            else if Battery_is_full b then Battery_init 0 0
            else b))"

definition finder_step :: "nat \<Rightarrow> real \<Rightarrow> real \<Rightarrow> finder_state \<Rightarrow> finder_state control" where
  "finder_step i ren_mw df_dc st =
     (let s1 = st\<lparr>daily_net_load := daily_net_load st + (ren_mw - df_dc)\<rparr>;
          s2 = s1\<lparr>bat := finder_battery_step ren_mw df_dc (bat s1)\<rparr>;
          s3 = (if capacity (bat s2) > 0 \<and> ne_f (battery_cap s2) NaN
                then s2\<lparr>battery_cap := max_f (battery_cap s2) (Num (capacity (bat s2)))\<rparr>
                else s2)
      in if (i + 1) mod 72 = 0
         then (if daily_net_load s3 < 0 then Break (s3\<lparr>battery_cap := NaN\<rparr>)
               else Continue (s3\<lparr>daily_net_load := 0\<rparr>))
         else Continue s3)"

fun finder_loop :: "nat \<Rightarrow> real list \<Rightarrow> real list \<Rightarrow> finder_state \<Rightarrow> error + pyfloat" where
  "finder_loop i df_ren [] st = Inr (battery_cap st)"
| "finder_loop i [] (df_dc # dcs) st = Inl IndexError"
| "finder_loop i (ren_mw # rens) (df_dc # dcs) st =
     (case finder_step i ren_mw df_dc st of
        Break st' \<Rightarrow> Inr (battery_cap st')
      | Continue st' \<Rightarrow> finder_loop (Suc i) rens dcs st')"

definition finder_init :: finder_state where
  "finder_init = \<lparr>battery_cap = Num 0, daily_net_load = 0, bat = Battery_init 0 0\<rparr>"

definition calculate_247_battery_capacity :: "real list \<Rightarrow> real list \<Rightarrow> error + pyfloat" where
  "calculate_247_battery_capacity df_ren df_dc_pow = finder_loop 0 df_ren df_dc_pow finder_init"

text \<open>
  The states in which the iterations of \<open>finder_loop\<close> begin, in order: the same
  recursion, keeping the state at the head of every iteration that starts. It is not part
  of the program; the statements about "the start of any loop iteration" are written
  with it.
\<close>

fun finder_iterations :: "nat \<Rightarrow> real list \<Rightarrow> real list \<Rightarrow> finder_state \<Rightarrow> finder_state list" where
  "finder_iterations i df_ren [] st = []"
| "finder_iterations i [] (df_dc # dcs) st = [st]"
| "finder_iterations i (ren_mw # rens) (df_dc # dcs) st =
     st # (case finder_step i ren_mw df_dc st of
             Break st' \<Rightarrow> []
           | Continue st' \<Rightarrow> finder_iterations (Suc i) rens dcs st')"

section \<open>The coverage estimator\<close>

fun apply_battery_loop :: "real list \<Rightarrow> real list \<Rightarrow> Battery2 \<Rightarrow> real \<Rightarrow> error + real" where
  "apply_battery_loop df_ren [] b tot_non_ren_mw = Inr tot_non_ren_mw"
| "apply_battery_loop [] (df_dc # dcs) b tot_non_ren_mw = Inl IndexError"
| "apply_battery_loop (ren_mw # rens) (df_dc # dcs) b tot_non_ren_mw =
     (let gap = df_dc - ren_mw
      in if gap > 0
         then (case Battery2_discharge gap b of
                 Inl e \<Rightarrow> Inl e
               | Inr (discharged_amount, b') \<Rightarrow>
                   apply_battery_loop rens dcs b' (tot_non_ren_mw + gap - discharged_amount))
         else (case Battery2_charge (- gap) b of
                 Inl e \<Rightarrow> Inl e
               | Inr (_, b') \<Rightarrow> apply_battery_loop rens dcs b' tot_non_ren_mw))"

definition apply_battery :: "real \<Rightarrow> real list \<Rightarrow> real list \<Rightarrow> error + real" where
  "apply_battery battery_capacity df_ren df_dc_pow =
     apply_battery_loop df_ren df_dc_pow (Battery2_init battery_capacity battery_capacity) 0"

section \<open>Binary floating point, where rounding decides\<close>

text \<open>
  Whether the loop of \<open>Battery2.find_and_init_capacity\<close> ends depends on whether adding
  \<open>0.1\<close> changes a double, which exact arithmetic cannot say. This section models the
  rounding of IEEE 754 binary64 (Python's \<open>float\<close>) for that one method. A double is
  embedded as the real number it stands for.
\<close>

text \<open>The number of binary digits of a positive integer.\<close>

function bit_length :: "int \<Rightarrow> int" where
  "bit_length n = (if n \<le> 0 then 0 else bit_length (n div 2) + 1)"
  by pat_completeness auto
termination
  by (relation "measure nat") auto

declare bit_length.simps [simp del]

text \<open>For \<open>x > 0\<close>, the exponent \<open>e\<close> with \<open>2 ^ e \<le> x < 2 ^ (e + 1)\<close>.\<close>

definition binade :: "real \<Rightarrow> int" where
  "binade x = (if 1 \<le> x then bit_length \<lfloor>x\<rfloor> - 1
               else - bit_length (\<lceil>1 / x\<rceil> - 1))"

text \<open>
  The double nearest to a real: 53 significant binary digits, ties to the even
  significand. Overflow to infinity and the subnormal range are left out; the values
  used below are far from both.
\<close>

definition round_to_double :: "real \<Rightarrow> real" where
  "round_to_double x =
     (if x = 0 then 0
      else (let ulp = 2 powi (binade \<bar>x\<bar> - 52);
                m = \<bar>x\<bar> / ulp;
                f = \<lfloor>m\<rfloor>;
                n = (if m - of_int f < 1 / 2 then f
                     else if 1 / 2 < m - of_int f then f + 1
                     else if even f then f else f + 1)
            in sgn x * of_int n * ulp))"

text \<open>Python's \<open>+\<close>, \<open>-\<close>, \<open>*\<close> and \<open>/\<close> on floats: the exact result, rounded once.\<close>

definition add_f64 :: "real \<Rightarrow> real \<Rightarrow> real" where
  "add_f64 x y = round_to_double (x + y)"

definition sub_f64 :: "real \<Rightarrow> real \<Rightarrow> real" where
  "sub_f64 x y = round_to_double (x - y)"

definition mul_f64 :: "real \<Rightarrow> real \<Rightarrow> real" where
  "mul_f64 x y = round_to_double (x * y)"

definition truediv_f64 :: "real \<Rightarrow> real \<Rightarrow> error + real" where
  "truediv_f64 x y = (if y = 0 then Inl ZeroDivisionError else Inr (round_to_double (x / y)))"

text \<open>
  \<open>Battery2.__init__\<close> with its defaults, each decimal literal standing for the double
  nearest to it.
\<close>

definition Battery2_init_f64 :: "real \<Rightarrow> real \<Rightarrow> Battery2" where
  "Battery2_init_f64 cap load =
     \<lparr>capacity = cap, current_load = load,
      eff_c = round_to_double 0.98, eff_d = round_to_double 1.05,
      upper_lim_u = round_to_double (- 0.125), upper_lim_v = 1,
      lower_lim_u = round_to_double 0.05, lower_lim_v = 0\<rparr>"

text \<open>
  \<open>Battery2.find_and_init_capacity\<close> again (lines 126 to 139), every operation rounded
  as Python rounds it.
\<close>

partial_function (option) find_capacity_loop_f64 ::
  "real \<Rightarrow> real \<Rightarrow> Battery2 \<Rightarrow> (error + Battery2) option" where
  "find_capacity_loop_f64 input_load new_capacity b =
     (case truediv_f64 (sub_f64 new_capacity (mul_f64 (lower_lim_v b) (capacity b)))
                       (add_f64 (lower_lim_u b) (eff_d b)) of
        Inl e \<Rightarrow> Some (Inl e)
      | Inr power_lim \<Rightarrow>
          if power_lim < input_load
          then find_capacity_loop_f64 input_load (add_f64 new_capacity (round_to_double 0.1))
                 (b\<lparr>capacity := add_f64 (capacity b) (round_to_double 0.1)\<rparr>)
          else Some (Inr b))"

definition Battery2_find_and_init_capacity_f64 :: "real \<Rightarrow> Battery2 \<Rightarrow> (error + Battery2) option" where
  "Battery2_find_and_init_capacity_f64 input_load b =
     find_capacity_loop_f64 input_load (mul_f64 input_load (eff_d b))
       (b\<lparr>capacity := add_f64 (capacity b) (mul_f64 input_load (eff_d b))\<rparr>)"

section \<open>Quantities the specification names\<close>

text \<open>
  The sum of the positive deficits of a pair of series: at every step, facility draw
  minus renewable supply where that is positive, and nothing otherwise.
\<close>

definition total_positive_deficit :: "real list \<Rightarrow> real list \<Rightarrow> real" where
  "total_positive_deficit df_ren df_dc_pow =
     (\<Sum>(ren_mw, df_dc) \<leftarrow> zip df_ren df_dc_pow. if df_dc - ren_mw > 0 then df_dc - ren_mw else 0)"

text \<open>
  The cumulative deficit is the energy missing from a store that began full: a deficit
  step adds to it, a surplus step pays it back, and it never goes below zero (a full
  store spills the surplus). \<open>deficit_peak d\<close> is the largest value it takes over the
  series when it starts at \<open>d\<close>; the maximum cumulative deficit is the peak from zero.
\<close>

fun deficit_peak :: "real \<Rightarrow> real list \<Rightarrow> real list \<Rightarrow> real" where
  "deficit_peak d (ren_mw # rens) (df_dc # dcs) =
     max d (deficit_peak (max 0 (d + (df_dc - ren_mw))) rens dcs)"
| "deficit_peak d _ _ = d"

definition max_cumulative_deficit :: "real list \<Rightarrow> real list \<Rightarrow> real" where
  "max_cumulative_deficit df_ren df_dc_pow = deficit_peak 0 df_ren df_dc_pow"

section \<open>Batteries whose methods cannot raise\<close>


section \<open>Properties of the lossless battery\<close>

text \<open>
  Claim C1. A lossless battery whose load lies in \<open>[0, capacity]\<close> still has its load in
  that range after one \<open>charge\<close> or one \<open>discharge\<close> with a non-negative argument.
\<close>

theorem Battery_load_in_range_preserved:
  assumes "load_in_range b" and "0 \<le> x"
  shows "load_in_range (snd (Battery_charge x b)) \<and> load_in_range (snd (Battery_discharge x b))"
  using assms by (auto simp: load_in_range_def Battery_charge_def Battery_discharge_def Let_def)

theorem Battery_load_in_range_preserved_witness:
  "load_in_range \<lparr>capacity = 5, current_load = 3\<rparr> \<and> (0::real) \<le> 4
   \<and> load_in_range (snd (Battery_charge 4 \<lparr>capacity = 5, current_load = 3\<rparr>))
   \<and> load_in_range (snd (Battery_discharge 4 \<lparr>capacity = 5, current_load = 3\<rparr>))
   \<and> snd (Battery_charge 4 \<lparr>capacity = 5, current_load = 3\<rparr>) = \<lparr>capacity = 5, current_load = 5\<rparr>
   \<and> snd (Battery_discharge 4 \<lparr>capacity = 5, current_load = 3\<rparr>) = \<lparr>capacity = 5, current_load = 0\<rparr>"
  using Battery_load_in_range_preserved [of "\<lparr>capacity = 5, current_load = 3\<rparr>" 4]
  by (simp add: load_in_range_def Battery_charge_def Battery_discharge_def Let_def)

section \<open>Properties of the lossy battery\<close>

lemma default_coefficientsD:
  assumes "default_coefficients b"
  shows "eff_c b = 0.98" "eff_d b = 1.05" "upper_lim_u b = - 0.125" "upper_lim_v b = 1"
    "lower_lim_u b = 0.05" "lower_lim_v b = 0"
  using assms unfolding default_coefficients_def by blast+

lemma calc_max_charge_default:
  assumes "default_coefficients b"
  shows "calc_max_charge b = Inr (min (capacity b / 0.98) ((capacity b - current_load b) / 1.105))"
  unfolding calc_max_charge_def truediv_def default_coefficientsD [OF assms] by simp

lemma calc_max_discharge_default:
  assumes "default_coefficients b"
  shows "calc_max_discharge b = Inr (min (capacity b / 1.05) (current_load b / 1.1))"
  unfolding calc_max_discharge_def truediv_def default_coefficientsD [OF assms] by simp

lemma Battery2_charge_default:
  assumes "default_coefficients b"
  shows "Battery2_charge x b =
           Inr (current_load b + min (min (capacity b / 0.98) ((capacity b - current_load b) / 1.105)) x * 0.98,
                b\<lparr>current_load := current_load b
                   + min (min (capacity b / 0.98) ((capacity b - current_load b) / 1.105)) x * 0.98\<rparr>)"
  unfolding Battery2_charge_def calc_max_charge_default [OF assms] default_coefficientsD(1) [OF assms]
  by (simp add: Let_def)

lemma Battery2_discharge_default:
  assumes "default_coefficients b"
  shows "Battery2_discharge x b =
           Inr (min (min (capacity b / 1.05) (current_load b / 1.1)) x,
                b\<lparr>current_load := current_load b
                   - min (min (capacity b / 1.05) (current_load b / 1.1)) x * 1.05\<rparr>)"
  unfolding Battery2_discharge_def calc_max_discharge_default [OF assms] default_coefficientsD(2) [OF assms]
  by (simp add: Let_def min_def)

lemma default_coefficients_load_update:
  "default_coefficients (b\<lparr>current_load := v\<rparr>) = default_coefficients b"
  by (simp add: default_coefficients_def)

text \<open>
  Claim C2. A \<open>Battery2\<close> with the default coefficients whose load lies in
  \<open>[0, capacity]\<close> still has its load in that range after one \<open>charge\<close> or one
  \<open>discharge\<close> with a non-negative argument, although neither method clamps: the
  amount moved is bounded by the rate limit, \<open>(capacity - load) / 1.105\<close> scaled by
  \<open>0.98\<close> on the way in and \<open>load / 1.1\<close> scaled by \<open>1.05\<close> on the way out.
  Neither call raises, and capacity and coefficients are untouched.
\<close>

theorem Battery2_load_in_range_preserved:
  assumes "default_coefficients b" and "load_in_range b" and "0 \<le> x"
  shows "(\<exists>r b'. Battery2_charge x b = Inr (r, b') \<and> load_in_range b'
                 \<and> capacity b' = capacity b \<and> default_coefficients b')
       \<and> (\<exists>r b'. Battery2_discharge x b = Inr (r, b') \<and> load_in_range b'
                 \<and> capacity b' = capacity b \<and> default_coefficients b')"
proof -
  let ?c = "capacity b" and ?l = "current_load b"
  from assms(2) have r: "0 \<le> ?l" "?l \<le> ?c" by (simp_all add: load_in_range_def)
  define p where "p = min (min (?c / 0.98) ((?c - ?l) / 1.105)) x"
  define q where "q = min (min (?c / 1.05) (?l / 1.1)) x"
  have p0: "0 \<le> p" using r assms(3) by (simp add: p_def)
  have q0: "0 \<le> q" using r assms(3) by (simp add: q_def)
  have "p \<le> (?c - ?l) / 1.105" unfolding p_def by (intro min.coboundedI1 min.cobounded2)
  then have "p * 1.105 \<le> ?c - ?l" by (simp add: field_simps)
  with p0 have p1: "p * 0.98 \<le> ?c - ?l" by simp
  have "q \<le> ?l / 1.1" unfolding q_def by (intro min.coboundedI1 min.cobounded2)
  then have "q * 1.1 \<le> ?l" by (simp add: field_simps)
  with q0 have q1: "q * 1.05 \<le> ?l" by simp
  have "load_in_range (b\<lparr>current_load := ?l + p * 0.98\<rparr>)"
    using p0 p1 r by (simp add: load_in_range_def)
  moreover have "load_in_range (b\<lparr>current_load := ?l - q * 1.05\<rparr>)"
    using q0 q1 r by (simp add: load_in_range_def)
  ultimately show ?thesis
    unfolding Battery2_charge_default [OF assms(1)] Battery2_discharge_default [OF assms(1)]
      p_def [symmetric] q_def [symmetric]
    using assms(1) by (simp add: default_coefficients_load_update)
qed

theorem Battery2_load_in_range_preserved_witness:
  "default_coefficients (Battery2_init 10 4) \<and> load_in_range (Battery2_init 10 4) \<and> (0::real) \<le> 3
   \<and> (\<exists>r b'. Battery2_charge 3 (Battery2_init 10 4) = Inr (r, b') \<and> load_in_range b'
               \<and> capacity b' = capacity (Battery2_init 10 4) \<and> default_coefficients b')
   \<and> (\<exists>r b'. Battery2_discharge 3 (Battery2_init 10 4) = Inr (r, b') \<and> load_in_range b'
               \<and> capacity b' = capacity (Battery2_init 10 4) \<and> default_coefficients b')"
proof -
  have h1: "default_coefficients (Battery2_init 10 4)"
    by (simp add: default_coefficients_def Battery2_init_def)
  have h2: "load_in_range (Battery2_init 10 4)"
    by (simp add: load_in_range_def Battery2_init_def)
  have h3: "(0::real) \<le> 3" by simp
  from Battery2_load_in_range_preserved [OF h1 h2 h3] h1 h2 h3 show ?thesis by blast
qed

text \<open>
  Claim C3. Where \<open>m\<close> is the value \<open>calc_max_discharge\<close> computes from the state before
  the call, \<open>discharge output_load\<close> sets \<open>current_load\<close> to
  \<open>current_load - min m output_load * eff_d\<close> and returns \<open>m\<close> if \<open>m < output_load\<close> and
  \<open>output_load\<close> otherwise. The value returned is \<open>min m output_load\<close>, the amount
  before the efficiency factor, while the store loses that amount times \<open>eff_d\<close>.
\<close>

theorem Battery2_discharge_spec:
  assumes "calc_max_discharge b = Inr m"
  shows "Battery2_discharge output_load b =
           Inr (if m < output_load then m else output_load,
                b\<lparr>current_load := current_load b - min m output_load * eff_d b\<rparr>)
         \<and> (if m < output_load then m else output_load) = min m output_load"
  using assms by (simp add: Battery2_discharge_def Let_def min_def)

theorem Battery2_discharge_spec_witness:
  "calc_max_discharge (Battery2_init 10 4) = Inr (40 / 11)
   \<and> Battery2_discharge 5 (Battery2_init 10 4) = Inr (40 / 11, Battery2_init 10 (2 / 11))
   \<and> Battery2_discharge 3 (Battery2_init 10 4) = Inr (3, Battery2_init 10 (17 / 20))"
proof -
  have h: "calc_max_discharge (Battery2_init 10 4) = Inr (40 / 11)"
    by (simp add: calc_max_discharge_def truediv_def Battery2_init_def)
  from Battery2_discharge_spec [OF h, of 5] Battery2_discharge_spec [OF h, of 3] h
  show ?thesis by (simp add: Battery2_init_def)
qed

section \<open>Properties of the coverage estimator\<close>

lemma empty_Battery2_discharge:
  assumes "0 < gap"
  shows "Battery2_discharge gap (Battery2_init 0 0) = Inr (0, Battery2_init 0 0)"
proof -
  have d: "default_coefficients (Battery2_init 0 0)"
    by (simp add: default_coefficients_def Battery2_init_def)
  show ?thesis unfolding Battery2_discharge_default [OF d]
    using assms by (simp add: Battery2_init_def)
qed

lemma empty_Battery2_charge:
  assumes "0 \<le> x"
  shows "\<exists>r. Battery2_charge x (Battery2_init 0 0) = Inr (r, Battery2_init 0 0)"
proof -
  have d: "default_coefficients (Battery2_init 0 0)"
    by (simp add: default_coefficients_def Battery2_init_def)
  show ?thesis unfolding Battery2_charge_default [OF d]
    using assms by (simp add: Battery2_init_def)
qed

lemma apply_battery_loop_empty:
  assumes "length df_ren = length df_dc_pow"
  shows "apply_battery_loop df_ren df_dc_pow (Battery2_init 0 0) tot
           = Inr (tot + total_positive_deficit df_ren df_dc_pow)"
  using assms
proof (induction df_ren df_dc_pow arbitrary: tot rule: list_induct2)
  case Nil
  show ?case by (simp add: total_positive_deficit_def)
next
  case (Cons r rs d ds)
  show ?case
  proof (cases "0 < d - r")
    case True
    with Cons.IH [of "tot + (d - r) - 0"] empty_Battery2_discharge [OF True]
    show ?thesis by (simp add: total_positive_deficit_def)
  next
    case False
    then have "0 \<le> - (d - r)" by simp
    from empty_Battery2_charge [OF this] obtain v
      where "Battery2_charge (- (d - r)) (Battery2_init 0 0) = Inr (v, Battery2_init 0 0)" ..
    with False Cons.IH [of tot] show ?thesis by (simp add: total_positive_deficit_def)
  qed
qed

text \<open>
  Claim C8. On aligned series, \<open>apply_battery\<close> with \<open>battery_capacity = 0\<close> returns
  exactly the sum of the positive deficits: the empty lossy battery hands out nothing on a
  deficit step and takes nothing in on a surplus step, so it stays as it was built.
\<close>

theorem apply_battery_zero_capacity:
  assumes "length df_ren = length df_dc_pow"
  shows "apply_battery 0 df_ren df_dc_pow = Inr (total_positive_deficit df_ren df_dc_pow)"
  using apply_battery_loop_empty [OF assms, of 0] by (simp add: apply_battery_def)

theorem apply_battery_zero_capacity_witness:
  "length [10, 0, 3 :: real] = length [5, 5, 7 :: real]
   \<and> apply_battery 0 [10, 0, 3] [5, 5, 7] = Inr 9
   \<and> total_positive_deficit [10, 0, 3] [5, 5, 7] = 9"
proof -
  have h: "length [10, 0, 3 :: real] = length [5, 5, 7 :: real]" by simp
  have "total_positive_deficit [10, 0, 3] [5, 5, 7] = 9"
    by (simp add: total_positive_deficit_def)
  with apply_battery_zero_capacity [OF h] h show ?thesis by simp
qed


section \<open>Properties of the incremental capacity finder\<close>

lemma finder_step_boundary_deficit:
  assumes "(i + 1) mod 72 = 0" and "daily_net_load st + (r - d) < 0"
  shows "\<exists>st'. finder_step i r d st = Break st' \<and> battery_cap st' = NaN"
  using assms by (simp add: finder_step_def Let_def)

lemma finder_step_boundary_reset:
  assumes "(i + 1) mod 72 = 0" and "\<not> daily_net_load st + (r - d) < 0"
  shows "\<exists>st'. finder_step i r d st = Continue st' \<and> daily_net_load st' = 0"
  using assms by (simp add: finder_step_def Let_def)

lemma finder_step_inside_window:
  assumes "(i + 1) mod 72 \<noteq> 0"
  shows "\<exists>st'. finder_step i r d st = Continue st'
              \<and> daily_net_load st' = daily_net_load st + (r - d)"
  using assms by (simp add: finder_step_def Let_def)

lemma finder_step_Break:
  assumes "finder_step i r d st = Break st'"
  shows "battery_cap st' = NaN \<and> (i + 1) mod 72 = 0 \<and> daily_net_load st + (r - d) < 0"
  using assms by (auto simp add: finder_step_def Let_def split: if_splits)

lemma finder_step_Continue_cap:
  assumes "finder_step i r d st = Continue st'" and "battery_cap st = Num c" and "0 \<le> c"
  shows "\<exists>c'. battery_cap st' = Num c' \<and> 0 \<le> c'"
  using assms by (auto simp add: finder_step_def Let_def max_f_def split: if_splits)

lemma finder_loop_error:
  assumes "finder_loop i rs ds st = Inl e"
  shows "e = IndexError \<and> length rs < length ds"
  using assms
  by (induction i rs ds st rule: finder_loop.induct) (auto split: control.splits)

lemma finder_cap_invariant:
  assumes "battery_cap st = Num c" and "0 \<le> c"
  shows "(\<forall>s \<in> set (finder_iterations i rs ds st). \<exists>c'. battery_cap s = Num c' \<and> 0 \<le> c')
       \<and> (\<forall>v. finder_loop i rs ds st = Inr v \<longrightarrow> v = NaN \<or> (\<exists>x. v = Num x \<and> 0 \<le> x))"
  using assms
proof (induction i rs ds st arbitrary: c rule: finder_loop.induct)
  case (1 i df_ren st)
  then show ?case by simp
next
  case (2 i df_dc dcs st)
  then show ?case by simp
next
  case (3 i ren_mw rens df_dc dcs st)
  show ?case
  proof (cases "finder_step i ren_mw df_dc st")
    case (Continue st')
    from finder_step_Continue_cap [OF Continue "3.prems"] obtain c'
      where c': "battery_cap st' = Num c'" "0 \<le> c'" by blast
    from "3.IH" [OF Continue c'] Continue "3.prems" show ?thesis by simp
  next
    case (Break st')
    with finder_step_Break [OF Break] "3.prems" show ?thesis by simp
  qed
qed

text \<open>
  Claim C10. In \<open>calculate_247_battery_capacity\<close>, \<open>battery_cap\<close> is never the sentinel
  when a loop iteration begins: an iteration that falls through leaves a non-negative
  number in it, and the sentinel is written only on the way out by \<open>break\<close>. So
  \<open>max(battery_cap, b.capacity)\<close> never sees the sentinel, and the function returns the
  sentinel or a non-negative number (or raises \<open>IndexError\<close> when \<open>df_ren\<close> is the
  shorter series).
\<close>

theorem finder_battery_cap_never_NaN:
  "(\<forall>st \<in> set (finder_iterations 0 df_ren df_dc_pow finder_init). battery_cap st \<noteq> NaN)
   \<and> (calculate_247_battery_capacity df_ren df_dc_pow = Inr NaN
      \<or> (\<exists>x. calculate_247_battery_capacity df_ren df_dc_pow = Inr (Num x) \<and> 0 \<le> x)
      \<or> (calculate_247_battery_capacity df_ren df_dc_pow = Inl IndexError
          \<and> length df_ren < length df_dc_pow))"
proof -
  have init: "battery_cap finder_init = Num 0" "(0::real) \<le> 0"
    by (simp_all add: finder_init_def)
  note inv = finder_cap_invariant [OF init, of 0 df_ren df_dc_pow]
  from inv have "\<forall>st \<in> set (finder_iterations 0 df_ren df_dc_pow finder_init). battery_cap st \<noteq> NaN"
    by fastforce
  moreover have "calculate_247_battery_capacity df_ren df_dc_pow = Inr NaN
      \<or> (\<exists>x. calculate_247_battery_capacity df_ren df_dc_pow = Inr (Num x) \<and> 0 \<le> x)
      \<or> (calculate_247_battery_capacity df_ren df_dc_pow = Inl IndexError
          \<and> length df_ren < length df_dc_pow)"
  proof (cases "finder_loop 0 df_ren df_dc_pow finder_init")
    case (Inl e)
    with finder_loop_error [OF Inl] show ?thesis
      by (simp add: calculate_247_battery_capacity_def)
  next
    case (Inr v)
    with inv show ?thesis
      by (auto simp add: calculate_247_battery_capacity_def)
  qed
  ultimately show ?thesis by blast
qed

theorem finder_battery_cap_never_NaN_witness:
  "finder_iterations 0 [0, 5] [1, 1] finder_init
     = [finder_init,
        \<lparr>battery_cap = Num 1, daily_net_load = - 1, bat = \<lparr>capacity = 1, current_load = 0\<rparr>\<rparr>]
   \<and> battery_cap finder_init \<noteq> NaN
   \<and> calculate_247_battery_capacity [0, 5] [1, 1] = Inr (Num 1)"
proof -
  have its: "finder_iterations 0 [0, 5] [1, 1] finder_init
     = [finder_init,
        \<lparr>battery_cap = Num 1, daily_net_load = - 1, bat = \<lparr>capacity = 1, current_load = 0\<rparr>\<rparr>]"
    by (simp add: finder_init_def finder_step_def finder_battery_step_def Let_def max_f_def
        Battery_init_def Battery_find_and_init_capacity_def)
  have res: "calculate_247_battery_capacity [0, 5] [1, 1] = Inr (Num 1)"
    by (simp add: calculate_247_battery_capacity_def finder_init_def finder_step_def
        finder_battery_step_def Let_def max_f_def Battery_init_def
        Battery_find_and_init_capacity_def Battery_charge_def)
  from finder_battery_cap_never_NaN [of "[0, 5]" "[1, 1]"] its res
  show ?thesis by simp
qed

lemma drop_eq_ConsD:
  assumes "drop i xs = y # ys"
  shows "i < length xs \<and> y = xs ! i \<and> ys = drop (Suc i) xs"
proof -
  from assms have i: "i < length xs" by (cases "i < length xs") simp_all
  from Cons_nth_drop_Suc [OF i] assms show ?thesis using i by simp
qed

lemma finder_iterations_head:
  assumes "0 < length (finder_iterations k rs ds st)"
  shows "finder_iterations k rs ds st ! 0 = st"
  using assms by (cases "(k, rs, ds, st)" rule: finder_iterations.cases) auto

lemma finder_iterations_drop:
  assumes "i < length (finder_iterations k rs ds st)"
  shows "finder_loop k rs ds st
           = finder_loop (k + i) (drop i rs) (drop i ds) (finder_iterations k rs ds st ! i)
       \<and> drop i (finder_iterations k rs ds st)
           = finder_iterations (k + i) (drop i rs) (drop i ds) (finder_iterations k rs ds st ! i)"
  using assms
proof (induction i arbitrary: k rs ds st)
  case 0
  then show ?case using finder_iterations_head [of k rs ds st] by simp
next
  case (Suc i)
  from Suc.prems obtain d ds' where ds: "ds = d # ds'"
    by (cases ds) auto
  from Suc.prems ds obtain r rs' where rs: "rs = r # rs'"
    by (cases rs) auto
  from Suc.prems ds rs obtain st' where step: "finder_step k r d st = Continue st'"
    by (cases "finder_step k r d st") auto
  from Suc.prems have "i < length (finder_iterations (Suc k) rs' ds' st')"
    by (simp add: ds rs step)
  from Suc.IH [OF this] show ?case by (simp add: ds rs step)
qed

lemma finder_iterations_length:
  "length (finder_iterations k rs ds st) \<le> length ds"
  by (induction k rs ds st rule: finder_iterations.induct) (auto split: control.splits)

lemma finder_iterations_step:
  assumes "Suc i < length (finder_iterations k rs ds st)"
  shows "i < length rs \<and> i < length ds
       \<and> finder_step (k + i) (rs ! i) (ds ! i) (finder_iterations k rs ds st ! i)
           = Continue (finder_iterations k rs ds st ! Suc i)"
proof -
  let ?its = "finder_iterations k rs ds st"
  from assms have i: "i < length ?its" by simp
  from finder_iterations_drop [OF i]
  have dr: "drop i ?its = finder_iterations (k + i) (drop i rs) (drop i ds) (?its ! i)" by simp
  from assms have len: "2 \<le> length (drop i ?its)" by simp
  from len dr obtain d ds' where ds: "drop i ds = d # ds'"
    by (cases "drop i ds") auto
  from len dr ds obtain r rs' where rs: "drop i rs = r # rs'"
    by (cases "drop i rs") auto
  from len dr ds rs obtain st' where step: "finder_step (k + i) r d (?its ! i) = Continue st'"
    by (cases "finder_step (k + i) r d (?its ! i)") auto
  from drop_eq_ConsD [OF ds] have il: "i < length ds" and d: "d = ds ! i" by simp_all
  from drop_eq_ConsD [OF rs] have ir: "i < length rs" and r: "r = rs ! i" by simp_all
  from dr ds rs step have "drop i ?its = ?its ! i # finder_iterations (Suc (k + i)) rs' ds' st'"
    by simp
  moreover from assms len dr ds rs step have "finder_iterations (Suc (k + i)) rs' ds' st' \<noteq> []"
    by auto
  ultimately have "drop i ?its ! 1 = st'"
    using finder_iterations_head [of "Suc (k + i)" rs' ds' st'] by simp
  with assms have "?its ! Suc i = st'" by simp
  with step il ir d r show ?thesis by simp
qed

lemma finder_step_Continue_daily:
  assumes "finder_step i r d st = Continue st'"
  shows "daily_net_load st' = (if (i + 1) mod 72 = 0 then 0 else daily_net_load st + (r - d))"
  using assms by (auto simp add: finder_step_def Let_def split: if_splits)

lemma finder_window_accumulator:
  assumes "i < length (finder_iterations 0 rs ds finder_init)"
  shows "daily_net_load (finder_iterations 0 rs ds finder_init ! i)
           = (\<Sum>j = i - i mod 72..<i. rs ! j - ds ! j)"
  using assms
proof (induction i)
  case 0
  then show ?case
    using finder_iterations_head [of 0 rs ds finder_init] by (simp add: finder_init_def)
next
  case (Suc i)
  let ?its = "finder_iterations 0 rs ds finder_init"
  from Suc.prems have "i < length ?its" by simp
  note IH = Suc.IH [OF this]
  from finder_iterations_step [OF Suc.prems]
  have step: "finder_step i (rs ! i) (ds ! i) (?its ! i) = Continue (?its ! Suc i)" by simp
  note dl = finder_step_Continue_daily [OF step]
  show ?case
  proof (cases "Suc i mod 72 = 0")
    case True
    with dl show ?thesis by simp
  next
    case False
    then have m: "Suc i mod 72 = Suc (i mod 72)" by (simp add: mod_Suc split: if_splits)
    have le: "i mod 72 \<le> i" by simp
    then have lo: "Suc i - Suc (i mod 72) = i - i mod 72" by simp
    have "i - i mod 72 \<le> i" by simp
    then have "(\<Sum>j = i - i mod 72..<Suc i. rs ! j - ds ! j)
                 = (\<Sum>j = i - i mod 72..<i. rs ! j - ds ! j) + (rs ! i - ds ! i)"
      by (rule sum.atLeastLessThan_Suc)
    with dl False IH show ?thesis by (simp add: m lo)
  qed
qed

text \<open>
  Claim C7. Let iteration \<open>i\<close> of \<open>calculate_247_battery_capacity\<close> begin, with
  \<open>(i + 1) mod 72 = 0\<close>. The net load the check looks at is the sum of
  \<open>df_ren[j] - df_dc[j]\<close> over the 72 indices of the window that ends at \<open>i\<close>, that is,
  what has accumulated since the last boundary. If it is negative, the function returns
  the sentinel and no further iteration begins; otherwise the accumulator is zero when
  the next iteration begins (or, at the end of the series, the function returns a
  number).
\<close>

theorem finder_window_check:
  assumes "i < length (finder_iterations 0 df_ren df_dc_pow finder_init)"
    and "(i + 1) mod 72 = 0"
  shows "let its = finder_iterations 0 df_ren df_dc_pow finder_init;
             window = daily_net_load (its ! i) + (df_ren ! i - df_dc_pow ! i)
         in i < length df_dc_pow
          \<and> window = (\<Sum>j = i + 1 - 72..<i + 1. df_ren ! j - df_dc_pow ! j)
          \<and> (if length df_ren \<le> i
              then calculate_247_battery_capacity df_ren df_dc_pow = Inl IndexError
              else if window < 0
              then calculate_247_battery_capacity df_ren df_dc_pow = Inr NaN
                   \<and> length its = i + 1
              else if i + 1 < length df_dc_pow
              then i + 1 < length its \<and> daily_net_load (its ! (i + 1)) = 0
              else length its = i + 1
                   \<and> (\<exists>c. calculate_247_battery_capacity df_ren df_dc_pow = Inr (Num c)))"
proof -
  let ?its = "finder_iterations 0 df_ren df_dc_pow finder_init"
  let ?st = "?its ! i"
  let ?w = "daily_net_load ?st + (df_ren ! i - df_dc_pow ! i)"
  from finder_iterations_drop [OF assms(1)]
  have loop: "finder_loop 0 df_ren df_dc_pow finder_init
                = finder_loop i (drop i df_ren) (drop i df_dc_pow) ?st"
    and dr: "drop i ?its = finder_iterations i (drop i df_ren) (drop i df_dc_pow) ?st"
    by simp_all
  from assms(1) finder_iterations_length [of 0 df_ren df_dc_pow finder_init]
  have il: "i < length df_dc_pow" by simp
  then have dds: "drop i df_dc_pow = df_dc_pow ! i # drop (Suc i) df_dc_pow"
    by (simp add: Cons_nth_drop_Suc)
  have i71: "i mod 72 = 71" using assms(2) by presburger
  then have "71 \<le> i" by (metis mod_less_eq_dividend)
  then have lo: "i - i mod 72 = i + 1 - 72" by (simp add: i71)
  have "i + 1 - 72 \<le> i" by simp
  then have "(\<Sum>j = i + 1 - 72..<Suc i. df_ren ! j - df_dc_pow ! j)
               = (\<Sum>j = i + 1 - 72..<i. df_ren ! j - df_dc_pow ! j) + (df_ren ! i - df_dc_pow ! i)"
    by (rule sum.atLeastLessThan_Suc)
  with finder_window_accumulator [OF assms(1)]
  have window: "?w = (\<Sum>j = i + 1 - 72..<i + 1. df_ren ! j - df_dc_pow ! j)"
    by (simp add: lo)
  have len_its: "length ?its = i + n" if "length (drop i ?its) = n" for n
    using assms(1) that by simp
  have rest: "if length df_ren \<le> i
              then calculate_247_battery_capacity df_ren df_dc_pow = Inl IndexError
              else if ?w < 0
              then calculate_247_battery_capacity df_ren df_dc_pow = Inr NaN
                   \<and> length ?its = i + 1
              else if i + 1 < length df_dc_pow
              then i + 1 < length ?its \<and> daily_net_load (?its ! (i + 1)) = 0
              else length ?its = i + 1
                   \<and> (\<exists>c. calculate_247_battery_capacity df_ren df_dc_pow = Inr (Num c))"
  proof (cases "length df_ren \<le> i")
    case True
    then have "drop i df_ren = []" by simp
    with loop dds True show ?thesis by (simp add: calculate_247_battery_capacity_def)
  next
    case short: False
    then have drs: "drop i df_ren = df_ren ! i # drop (Suc i) df_ren"
      by (simp add: Cons_nth_drop_Suc)
    show ?thesis
    proof (cases "?w < 0")
      case True
      from finder_step_boundary_deficit [OF assms(2) True] obtain st'
        where step: "finder_step i (df_ren ! i) (df_dc_pow ! i) ?st = Break st'"
          and nan: "battery_cap st' = NaN" by blast
      from dr step have "length (drop i ?its) = 1" by (simp add: drs dds)
      from len_its [OF this] have "length ?its = i + 1" .
      moreover from loop step nan
      have "calculate_247_battery_capacity df_ren df_dc_pow = Inr NaN"
        by (simp add: calculate_247_battery_capacity_def drs dds)
      ultimately show ?thesis using short True by simp
    next
      case False
      from finder_step_boundary_reset [OF assms(2) False] obtain st'
        where step: "finder_step i (df_ren ! i) (df_dc_pow ! i) ?st = Continue st'"
          and zero: "daily_net_load st' = 0" by blast
      from dr step have dr': "drop i ?its
          = ?st # finder_iterations (Suc i) (drop (Suc i) df_ren) (drop (Suc i) df_dc_pow) st'"
        by (simp add: drs dds)
      from loop step have loop': "finder_loop 0 df_ren df_dc_pow finder_init
          = finder_loop (Suc i) (drop (Suc i) df_ren) (drop (Suc i) df_dc_pow) st'"
        by (simp add: drs dds)
      show ?thesis
      proof (cases "i + 1 < length df_dc_pow")
        case True
        then obtain d ds' where d: "drop (Suc i) df_dc_pow = d # ds'"
          by (cases "drop (Suc i) df_dc_pow") auto
        have ne: "finder_iterations (Suc i) (drop (Suc i) df_ren) (d # ds') st' \<noteq> []"
          by (cases "drop (Suc i) df_ren") simp_all
        then obtain s' ss where "finder_iterations (Suc i) (drop (Suc i) df_ren) (d # ds') st' = s' # ss"
          by (cases "finder_iterations (Suc i) (drop (Suc i) df_ren) (d # ds') st'") simp_all
        with dr' d have "length (drop i ?its) = Suc (Suc (length ss))" by simp
        from len_its [OF this] have l: "i + 1 < length ?its" by simp
        from ne finder_iterations_head [of "Suc i" "drop (Suc i) df_ren" "d # ds'" st']
        have "finder_iterations (Suc i) (drop (Suc i) df_ren) (d # ds') st' ! 0 = st'" by simp
        with dr' d have "drop i ?its ! 1 = st'" by simp
        with l have "?its ! (i + 1) = st'" by simp
        with l zero True short False show ?thesis by simp
      next
        case last: False
        with il have "drop (Suc i) df_dc_pow = []" by simp
        with dr' loop'
        have "length (drop i ?its) = 1"
          and res: "calculate_247_battery_capacity df_ren df_dc_pow = Inr (battery_cap st')"
          by (simp_all add: calculate_247_battery_capacity_def)
        from len_its [OF this(1)] have "length ?its = i + 1" .
        note this res
        moreover have "battery_cap st' \<noteq> NaN"
        proof -
          have init: "battery_cap finder_init = Num 0" "(0::real) \<le> 0"
            by (simp_all add: finder_init_def)
          from finder_cap_invariant [OF init, of 0 df_ren df_dc_pow] assms(1)
          obtain c where "battery_cap ?st = Num c" "0 \<le> c"
            by (metis nth_mem)
          from finder_step_Continue_cap [OF step this] show ?thesis by auto
        qed
        ultimately show ?thesis using short False last
          by (cases "battery_cap st'") simp_all
      qed
    qed
  qed
  from il window rest show ?thesis by (simp only: Let_def)
qed

theorem finder_window_check_witness:
  "71 < length (finder_iterations 0 (replicate 72 0) (replicate 72 1) finder_init)
   \<and> (71 + 1) mod 72 = (0::nat)
   \<and> calculate_247_battery_capacity (replicate 72 0) (replicate 72 1) = Inr NaN
   \<and> length (finder_iterations 0 (replicate 72 0) (replicate 72 1) finder_init) = 72
   \<and> 71 < length (finder_iterations 0 (replicate 73 2) (replicate 73 1) finder_init)
   \<and> daily_net_load (finder_iterations 0 (replicate 73 2) (replicate 73 1) finder_init ! 72) = 0"
proof -
  have h1: "71 < length (finder_iterations 0 (replicate 72 0) (replicate 72 1) finder_init)"
    by code_simp
  have h2: "(71 + 1) mod 72 = (0::nat)" by simp
  have w: "daily_net_load (finder_iterations 0 (replicate 72 0) (replicate 72 1) finder_init ! 71)
            + (replicate 72 0 ! 71 - replicate 72 1 ! 71) < 0"
    by code_simp
  have g1: "71 < length (finder_iterations 0 (replicate 73 2) (replicate 73 1) finder_init)"
    by code_simp
  have v: "daily_net_load (finder_iterations 0 (replicate 73 2) (replicate 73 1) finder_init ! 71) = 71"
    by code_simp
  from finder_window_check [OF h1 h2] w have a:
    "calculate_247_battery_capacity (replicate 72 0) (replicate 72 1) = Inr NaN
     \<and> length (finder_iterations 0 (replicate 72 0) (replicate 72 1) finder_init) = 72"
    by (simp add: Let_def)
  from finder_window_check [OF g1 h2] v have b:
    "daily_net_load (finder_iterations 0 (replicate 73 2) (replicate 73 1) finder_init ! 72) = 0"
    by (simp add: Let_def)
  from h1 h2 a g1 b show ?thesis by blast
qed

section \<open>Properties of the feasibility simulator\<close>

lemma deficit_peak_ge: "d \<le> deficit_peak d rs ds"
  by (induction d rs ds rule: deficit_peak.induct) simp_all

lemma sim_lossless_peak:
  assumes "length rs = length ds" and "load_in_range b"
  shows "sim_battery_247 rs ds (Lossless b)
           = Inr (deficit_peak (capacity b - current_load b) rs ds \<le> capacity b)"
  using assms
proof (induction rs ds arbitrary: b rule: list_induct2)
  case Nil
  then show ?case by (simp add: load_in_range_def)
next
  case (Cons r rs d ds)
  let ?c = "capacity b" and ?l = "current_load b"
  from Cons.prems have range: "0 \<le> ?l" "?l \<le> ?c" by (simp_all add: load_in_range_def)
  show ?case
  proof (cases "r - d > 0")
    case True
    define b' where "b' = snd (Battery_charge (r - d) b)"
    have b': "load_in_range b'" "capacity b' = ?c"
      "capacity b' - current_load b' = max 0 (?c - ?l + (d - r))"
      using range True by (auto simp add: b'_def Battery_charge_def Let_def load_in_range_def)
    have "sim_battery_247 (r # rs) (d # ds) (Lossless b) = sim_battery_247 rs ds (Lossless b')"
      using True by (simp add: b'_def split: prod.splits)
    also have "\<dots> = Inr (deficit_peak (max 0 (?c - ?l + (d - r))) rs ds \<le> ?c)"
      using Cons.IH [OF b'(1)] b'(2,3) by simp
    finally show ?thesis using range by simp
  next
    case False
    show ?thesis
    proof (cases "?l - (d - r) < 0")
      case True
      then have "?c < ?c - ?l + (d - r)" by simp
      also have "\<dots> \<le> deficit_peak (max 0 (?c - ?l + (d - r))) rs ds"
        using deficit_peak_ge [of "max 0 (?c - ?l + (d - r))" rs ds] by simp
      finally have "\<not> deficit_peak (max 0 (?c - ?l + (d - r))) rs ds \<le> ?c" by simp
      moreover have "sim_battery_247 (r # rs) (d # ds) (Lossless b) = Inr False"
        using False True by (simp add: Battery_discharge_def Let_def)
      ultimately show ?thesis by simp
    next
      case enough: False
      define b' where "b' = snd (Battery_discharge (d - r) b)"
      have b': "load_in_range b'" "capacity b' = ?c"
        "capacity b' - current_load b' = max 0 (?c - ?l + (d - r))"
        "Battery_discharge (d - r) b = (d - r, b')"
        using range False enough
        by (auto simp add: b'_def Battery_discharge_def Let_def load_in_range_def)
      have "sim_battery_247 (r # rs) (d # ds) (Lossless b) = sim_battery_247 rs ds (Lossless b')"
        using False b'(4) by simp
      also have "\<dots> = Inr (deficit_peak (max 0 (?c - ?l + (d - r))) rs ds \<le> ?c)"
        using Cons.IH [OF b'(1)] b'(2,3) by simp
      finally show ?thesis using range by simp
    qed
  qed
qed

text \<open>
  Claim C6, as the program has it. A lossless battery that starts full and whose
  capacity is at least the maximum cumulative deficit of the aligned series passes
  \<open>sim_battery_247\<close>. (By \<open>sim_lossless_peak\<close> the bound is also necessary.)
\<close>

theorem sim_full_lossless_succeeds:
  assumes "length df_ren = length df_dc_pow"
    and "current_load b = capacity b"
    and "max_cumulative_deficit df_ren df_dc_pow \<le> capacity b"
  shows "sim_battery_247 df_ren df_dc_pow (Lossless b) = Inr True"
proof -
  have "0 \<le> max_cumulative_deficit df_ren df_dc_pow"
    unfolding max_cumulative_deficit_def by (rule deficit_peak_ge)
  with assms(2,3) have "load_in_range b" by (simp add: load_in_range_def)
  from sim_lossless_peak [OF assms(1) this] assms(2,3) show ?thesis
    by (simp add: max_cumulative_deficit_def)
qed

theorem sim_full_lossless_succeeds_witness:
  "length [10, 0, 10 :: real] = length [5, 5, 5 :: real]
   \<and> current_load (Battery_init 5 5) = capacity (Battery_init 5 5)
   \<and> max_cumulative_deficit [10, 0, 10] [5, 5, 5] \<le> capacity (Battery_init 5 5)
   \<and> sim_battery_247 [10, 0, 10] [5, 5, 5] (Lossless (Battery_init 5 5)) = Inr True"
proof -
  have h1: "length [10, 0, 10 :: real] = length [5, 5, 5 :: real]" by simp
  have h2: "current_load (Battery_init 5 5) = capacity (Battery_init 5 5)"
    by (simp add: Battery_init_def)
  have h3: "max_cumulative_deficit [10, 0, 10] [5, 5, 5] \<le> capacity (Battery_init 5 5)"
    by (simp add: max_cumulative_deficit_def Battery_init_def)
  from sim_full_lossless_succeeds [OF h1 h2 h3] h1 h2 h3 show ?thesis by blast
qed

text \<open>
  As stated, for any battery of either model, the claim fails. On the one-step series
  with supply \<open>0\<close> and draw \<open>1\<close> the maximum cumulative deficit is \<open>1\<close>, yet the
  simulator reports failure for the lossless battery of capacity \<open>2\<close> built empty (the
  constructor's default load), and for the lossy battery of capacity \<open>1.04\<close> built full,
  which may hand out at most \<open>1.04 / 1.1\<close> in one step.
\<close>

theorem sim_capacity_above_deficit_counterexample:
  "max_cumulative_deficit [0] [1] < capacity (Battery_init 2 0)
   \<and> sim_battery_247 [0] [1] (Lossless (Battery_init 2 0)) = Inr False
   \<and> max_cumulative_deficit [0] [1] < capacity (Battery2_init 1.04 1.04)
   \<and> sim_battery_247 [0] [1] (Lossy (Battery2_init 1.04 1.04)) = Inr False"
  by (simp add: max_cumulative_deficit_def Battery_init_def Battery2_init_def
      Battery_discharge_def Battery2_discharge_def calc_max_discharge_def truediv_def Let_def)




section \<open>Properties of the binary-search capacity sizer\<close>





declare search_loop.simps [simp del] tested_capacities.simps [simp del]





text \<open>The runs used as examples below.\<close>

lemma sim_one_step_lossless:
  "sim_battery_247 [0] [1] (new_Battery c c) = Inr (1 \<le> c)"
  by (simp add: new_Battery_def Battery_init_def Battery_discharge_def Let_def)


lemma sizer_example:
  "calculate_247_battery_capacity_b1_sim [0] [1] 2 = Inr (Num (15 / 16))"
  by (simp add: calculate_247_battery_capacity_b1_sim_def capacity_sizer_def
      search_loop.simps sim_one_step_lossless del: sim_battery_247.simps)

lemma sim_one_step_lossy:
  "sim_battery_247 [0] [1] (new_Battery2 c c) = Inr (11 / 10 \<le> c)"
  by (simp add: new_Battery2_def Battery2_init_def Battery2_discharge_def
      calc_max_discharge_def truediv_def Let_def min_def)

lemma sizer_example2:
  "calculate_247_battery_capacity_b2_sim [0] [1] 2 = Inr (Num (17 / 16))"
  by (simp add: calculate_247_battery_capacity_b2_sim_def capacity_sizer_def
      search_loop.simps sim_one_step_lossy del: sim_battery_247.simps)



text \<open>
  Claim C4 says a result that is not the sentinel passes the simulator. The functions
  return \<open>med\<close>, the last midpoint tested, and not \<open>u\<close>, the last midpoint that
  passed; when the last test fails, the value returned is a capacity the simulator
  rejects. For supply \<open>[0]\<close>, draw \<open>[1]\<close> and \<open>max_bsize = 2\<close> the lossless sizer tests
  \<open>1\<close>, \<open>1/2\<close>, \<open>3/4\<close>, \<open>7/8\<close>, \<open>15/16\<close> and returns \<open>15/16\<close>, and the lossy sizer
  returns \<open>17/16\<close>; the simulator rejects both.
\<close>

theorem sizer_returns_failed_midpoint:
  "calculate_247_battery_capacity_b1_sim [0] [1] 2 = Inr (Num (15 / 16))
   \<and> sim_battery_247 [0] [1] (new_Battery (15 / 16) (15 / 16)) = Inr False
   \<and> calculate_247_battery_capacity_b2_sim [0] [1] 2 = Inr (Num (17 / 16))
   \<and> sim_battery_247 [0] [1] (new_Battery2 (17 / 16) (17 / 16)) = Inr False"
  by (simp add: sizer_example sizer_example2 sim_one_step_lossless sim_one_step_lossy
      del: sim_battery_247.simps)

section \<open>Properties of find_and_init_capacity\<close>

text \<open>
  In exact arithmetic the loop of \<open>Battery2.find_and_init_capacity\<close> with the default
  coefficients leaves after \<open>\<lceil>input_load / 2\<rceil>\<close> increments: it starts \<open>0.05 * input_load\<close>
  short of \<open>1.1 * input_load\<close> and gains \<open>0.1\<close> each time round.
\<close>

lemma find_capacity_loop_runs:
  assumes d: "default_coefficients b"
    and before: "\<forall>j < k. new_capacity + real j / 10 < input_load * 11 / 10"
    and at: "input_load * 11 / 10 \<le> new_capacity + real k / 10"
  shows "find_capacity_loop input_load new_capacity b
           = Some (Inr (b\<lparr>capacity := capacity b + real k / 10\<rparr>))"
  using assms
proof (induction k arbitrary: new_capacity b)
  case 0
  note c = default_coefficientsD [OF "0.prems"(1)]
  from "0.prems"(3) have "\<not> new_capacity / (11 / 10) < input_load" by (simp add: field_simps)
  then show ?case
    by (subst find_capacity_loop.simps) (simp add: c truediv_def)
next
  case (Suc k)
  note c = default_coefficientsD [OF Suc.prems(1)]
  let ?b = "b\<lparr>capacity := capacity b + 0.1\<rparr>"
  from Suc.prems(2) have "new_capacity + real 0 / 10 < input_load * 11 / 10" by blast
  then have go: "new_capacity / (11 / 10) < input_load" by (simp add: field_simps)
  have d': "default_coefficients ?b" using Suc.prems(1) by (simp add: default_coefficients_def)
  have before': "\<forall>j < k. (new_capacity + 0.1) + real j / 10 < input_load * 11 / 10"
  proof (intro allI impI)
    fix j assume "j < k"
    then have "Suc j < Suc k" by simp
    with Suc.prems(2) have "new_capacity + real (Suc j) / 10 < input_load * 11 / 10" by blast
    then show "(new_capacity + 0.1) + real j / 10 < input_load * 11 / 10"
      by (simp add: field_simps)
  qed
  have at': "input_load * 11 / 10 \<le> (new_capacity + 0.1) + real k / 10"
    using Suc.prems(3) by (simp add: field_simps)
  have "find_capacity_loop input_load new_capacity b
          = find_capacity_loop input_load (new_capacity + 0.1) ?b"
    using go by (subst find_capacity_loop.simps) (simp add: c truediv_def)
  also have "\<dots> = Some (Inr (?b\<lparr>capacity := capacity ?b + real k / 10\<rparr>))"
    by (rule Suc.IH [OF d' before' at'])
  also have "?b\<lparr>capacity := capacity ?b + real k / 10\<rparr>
               = b\<lparr>capacity := capacity b + real (Suc k) / 10\<rparr>"
    by (simp add: field_simps)
  finally show ?case .
qed

lemma find_and_init_capacity_exact:
  assumes "default_coefficients b" and "0 \<le> input_load"
  shows "Battery2_find_and_init_capacity input_load b
           = Some (Inr (b\<lparr>capacity := capacity b + input_load * 1.05
                                           + real (nat \<lceil>input_load / 2\<rceil>) / 10\<rparr>))"
proof -
  let ?k = "nat \<lceil>input_load / 2\<rceil>"
  let ?b = "b\<lparr>capacity := capacity b + input_load * 1.05\<rparr>"
  note c = default_coefficientsD [OF assms(1)]
  have d': "default_coefficients ?b" using assms(1) by (simp add: default_coefficients_def)
  have k: "input_load / 2 \<le> real ?k" using assms(2) by linarith
  have before: "\<forall>j < ?k. input_load * 1.05 + real j / 10 < input_load * 11 / 10"
  proof (intro allI impI)
    fix j assume "j < ?k"
    then have "int j < \<lceil>input_load / 2\<rceil>" by linarith
    then have "real j < input_load / 2" by (simp add: less_ceiling_iff)
    then show "input_load * 1.05 + real j / 10 < input_load * 11 / 10" by (simp add: field_simps)
  qed
  have at: "input_load * 11 / 10 \<le> input_load * 1.05 + real ?k / 10"
    using k by (simp add: field_simps)
  from find_capacity_loop_runs [OF d' before at] show ?thesis
    by (simp add: Battery2_find_and_init_capacity_def c)
qed

text \<open>
  The doubles of the run: the literals \<open>1.05\<close>, \<open>0.05\<close> and \<open>0.1\<close>, the product
  \<open>1e17 * 1.05\<close>, the sum that changes nothing, the divisor \<open>0.05 + 1.05\<close> and the
  quotient. Doubles between \<open>2 ^ 56\<close> and \<open>2 ^ 57\<close> are 16 apart.
\<close>

lemma double_1_05: "round_to_double (21 / 20) = 4728779608739021 / 4503599627370496"
  by (simp add: round_to_double_def binade_def bit_length.simps Let_def)

lemma double_0_05: "round_to_double (1 / 20) = 3602879701896397 / 72057594037927936"
  by (simp add: round_to_double_def binade_def bit_length.simps Let_def)

lemma double_0_1: "round_to_double (1 / 10) = 3602879701896397 / 36028797018963968"
  by (simp add: round_to_double_def binade_def bit_length.simps Let_def)

lemma double_product: "mul_f64 100000000000000000 (4728779608739021 / 4503599627370496) = 105000000000000000"
  by (simp add: mul_f64_def round_to_double_def binade_def bit_length.simps Let_def)



lemma double_sum_absorbed: "add_f64 105000000000000000 (3602879701896397 / 36028797018963968) = 105000000000000000"
  by (simp add: add_f64_def round_to_double_def binade_def bit_length.simps Let_def)

lemma double_divisor: "add_f64 (3602879701896397 / 72057594037927936) (4728779608739021 / 4503599627370496)
                  = 2476979795053773 / 2251799813685248"
  by (simp add: add_f64_def round_to_double_def binade_def bit_length.simps Let_def)

lemma double_power_lim: "truediv_f64 105000000000000000 (2476979795053773 / 2251799813685248)
                  = Inr 95454545454545440"
  by (simp add: truediv_f64_def round_to_double_def binade_def bit_length.simps Let_def)

lemma double_zero: "round_to_double 0 = 0"
  by (simp add: round_to_double_def)

lemma double_capacity: "round_to_double 105000000000000000 = 105000000000000000"
  by (simp add: round_to_double_def binade_def bit_length.simps Let_def)

text \<open>
  Two familiar doubles, as a check of the rounding: \<open>0.1 + 0.2\<close> is
  \<open>0.30000000000000004\<close>, which is not the double of \<open>0.3\<close>, and the double of \<open>1/3\<close>.
\<close>

lemma double_examples:
  "add_f64 (round_to_double (1 / 10)) (round_to_double (1 / 5)) = 1351079888211149 / 4503599627370496"
  "round_to_double (3 / 10) = 5404319552844595 / 18014398509481984"
  "round_to_double (1 / 3) = 6004799503160661 / 18014398509481984"
  by (simp_all add: add_f64_def round_to_double_def binade_def bit_length.simps Let_def)

text \<open>
  A state in which the rate check fails and the two additions change nothing is where
  the loop stays: no run from it returns.
\<close>

lemma find_capacity_loop_f64_stuck:
  assumes lim: "truediv_f64 (sub_f64 nc (mul_f64 (lower_lim_v b) (capacity b)))
                  (add_f64 (lower_lim_u b) (eff_d b)) = Inr p"
    and short: "p < x"
    and same_nc: "add_f64 nc (round_to_double 0.1) = nc"
    and same_cap: "add_f64 (capacity b) (round_to_double 0.1) = capacity b"
  shows "find_capacity_loop_f64 x nc b = None"
proof -
  define P where "P = (\<lambda>x' nc' b' (y :: error + Battery2). \<not> (x' = x \<and> nc' = nc \<and> b' = b))"
  have never: "P x' nc' b' y" if run: "find_capacity_loop_f64 x' nc' b' = Some y" for x' nc' b' y
  proof (rule find_capacity_loop_f64.raw_induct [where P = P, OF _ run])
    fix loop x' nc' b' y
    assume IH: "\<And>x' nc' b' y. loop x' nc' b' = Some y \<Longrightarrow> P x' nc' b' y"
      and body: "(case truediv_f64 (sub_f64 nc' (mul_f64 (lower_lim_v b') (capacity b')))
                        (add_f64 (lower_lim_u b') (eff_d b')) of
                    Inl e \<Rightarrow> Some (Inl e)
                  | Inr power_lim \<Rightarrow>
                      if power_lim < x'
                      then loop x' (add_f64 nc' (round_to_double 0.1))
                             (b'\<lparr>capacity := add_f64 (capacity b') (round_to_double 0.1)\<rparr>)
                      else Some (Inr b')) = Some y"
    show "P x' nc' b' y" unfolding P_def
    proof
      assume eq: "x' = x \<and> nc' = nc \<and> b' = b"
      have "b\<lparr>capacity := capacity b\<rparr> = b" by simp
      with body eq lim short same_nc same_cap have "loop x nc b = Some y" by simp
      from IH [OF this] show False by (simp add: P_def)
    qed
  qed
  show ?thesis
  proof (cases "find_capacity_loop_f64 x nc b")
    case None
    then show ?thesis .
  next
    case (Some y)
    from never [OF Some] show ?thesis by (simp add: P_def)
  qed
qed

text \<open>
  Claim C9 says \<open>find_and_init_capacity\<close> terminates for every non-negative
  \<open>input_load\<close>. In exact arithmetic it does (\<open>find_and_init_capacity_exact\<close>). In
  doubles it does not: for \<open>input_load = 1e17\<close> on \<open>Battery2(0, 0)\<close>, \<open>capacity\<close> and
  \<open>new_capacity\<close> become \<open>1.05e17\<close>, the rate check gives \<open>95454545454545440 < 1e17\<close>,
  and \<open>1.05e17 + 0.1\<close> rounds back to \<open>1.05e17\<close>, so every iteration repeats the last.
\<close>

theorem find_and_init_capacity_f64_never_returns:
  "Battery2_find_and_init_capacity_f64 (10 ^ 17) (Battery2_init_f64 0 0) = None"
proof -
  let ?b = "(Battery2_init_f64 0 0)\<lparr>capacity := 105000000000000000\<rparr>"
  have start: "Battery2_find_and_init_capacity_f64 (10 ^ 17) (Battery2_init_f64 0 0)
                 = find_capacity_loop_f64 (10 ^ 17) 105000000000000000 ?b"
    by (simp add: Battery2_find_and_init_capacity_f64_def Battery2_init_f64_def double_1_05
        double_product add_f64_def double_capacity)
  have lim: "truediv_f64 (sub_f64 105000000000000000 (mul_f64 (lower_lim_v ?b) (capacity ?b)))
               (add_f64 (lower_lim_u ?b) (eff_d ?b)) = Inr 95454545454545440"
    by (simp add: Battery2_init_f64_def double_1_05 double_0_05 double_divisor
        double_power_lim sub_f64_def mul_f64_def double_zero double_capacity)
  have short: "(95454545454545440 :: real) < 10 ^ 17" by simp
  have same_nc: "add_f64 105000000000000000 (round_to_double 0.1) = 105000000000000000"
    by (simp add: double_0_1 double_sum_absorbed)
  have same_cap: "add_f64 (capacity ?b) (round_to_double 0.1) = capacity ?b"
    by (simp add: double_0_1 double_sum_absorbed)
  from find_capacity_loop_f64_stuck [OF lim short same_nc same_cap] start show ?thesis by simp
qed

end
